theory Spec2Isabelle
  imports Complex_Main
begin

section \<open>Shallow embedding of bpm.py\<close>

text \<open>
  The refinement stages of \<^verbatim>\<open>bpm.py\<close> are embedded as HOL functions.
  NumPy arrays and Python lists are HOL lists. Frame positions, envelope values, times
  and BPM values are IEEE doubles in the program and are modelled as real numbers, so
  rounding is idealised; integer frame indices are \<open>int\<close> or \<open>nat\<close>.
\<close>

subsection \<open>NumPy and Python primitives\<close>

text \<open>\<^verbatim>\<open>np.diff\<close>: consecutive differences, empty for fewer than two entries.\<close>

fun np_diff :: "('a::minus) list \<Rightarrow> 'a list" where
  "np_diff (a # b # xs) = (b - a) # np_diff (b # xs)"
| "np_diff xs = []"


definition wrap64 :: "int \<Rightarrow> int" where
  "wrap64 x = (x + 9223372036854775808) mod 18446744073709551616 - 9223372036854775808"

definition np_abs64 :: "int \<Rightarrow> int" where
  "np_abs64 x = wrap64 \<bar>x\<bar>"

fun np_diff_int64 :: "int list \<Rightarrow> int list" where
  "np_diff_int64 [] = []"
| "np_diff_int64 [a] = []"
| "np_diff_int64 (a # b # xs) = wrap64 (b - a) # np_diff_int64 (b # xs)"

text \<open>
  \<^verbatim>\<open>np.median\<close>: the middle element of the sorted values, or the mean of the two
  middle ones. NumPy gives NaN on an empty array; every call in \<^verbatim>\<open>bpm.py\<close> is
  guarded by a length test and passes at least one value, and the model gives 0 there.
\<close>

definition np_median :: "real list \<Rightarrow> real" where
  "np_median xs =
     (let s = sort xs; n = length xs
      in if n = 0 then 0
         else if odd n then s ! (n div 2)
         else (s ! (n div 2 - 1) + s ! (n div 2)) / 2)"

text \<open>Python's \<^verbatim>\<open>int(x)\<close> on a float: truncation towards zero.\<close>

definition py_int :: "real \<Rightarrow> int" where
  "py_int x = (if 0 \<le> x then \<lfloor>x\<rfloor> else \<lceil>x\<rceil>)"

text \<open>
  Indexing with a non-negative index raises \<^verbatim>\<open>IndexError\<close> out of range, and
  \<^verbatim>\<open>xs[-1]\<close> raises it on an empty sequence; \<open>None\<close> stands for the exception.
\<close>

definition py_index :: "'a list \<Rightarrow> nat \<Rightarrow> 'a option" where
  "py_index xs i = (if i < length xs then Some (xs ! i) else None)"

definition py_last :: "'a list \<Rightarrow> 'a option" where
  "py_last xs = (if xs = [] then None else Some (last xs))"

text \<open>
  \<^verbatim>\<open>np.argmin\<close> and \<^verbatim>\<open>np.argmax\<close>: the index of the first occurrence of the
  least, respectively greatest, value of a non-empty array.
\<close>

fun np_argmin :: "('a::linorder) list \<Rightarrow> nat" where
  "np_argmin [] = 0"
| "np_argmin [x] = 0"
| "np_argmin (x # y # ys) =
     (let j = np_argmin (y # ys) in if x \<le> (y # ys) ! j then 0 else Suc j)"

fun np_argmax :: "('a::linorder) list \<Rightarrow> nat" where
  "np_argmax [] = 0"
| "np_argmax [x] = 0"
| "np_argmax (x # y # ys) =
     (let j = np_argmax (y # ys) in if (y # ys) ! j \<le> x then 0 else Suc j)"

text \<open>
  \<^verbatim>\<open>np.searchsorted(a, v)\<close> with the default \<^verbatim>\<open>side='left'\<close>: NumPy's binary
  search, which on a sorted array returns the number of entries less than \<open>v\<close> and on
  any array returns an index between 0 and its length.
\<close>

function searchsorted_loop :: "real list \<Rightarrow> real \<Rightarrow> nat \<Rightarrow> nat \<Rightarrow> nat" where
  "searchsorted_loop a v lo hi =
     (if lo < hi then
        (let mid = lo + (hi - lo) div 2 in
         if a ! mid < v then searchsorted_loop a v (Suc mid) hi
         else searchsorted_loop a v lo mid)
      else lo)"
  by pat_completeness auto
termination
  by (relation "measure (\<lambda>(a, v, lo, hi). hi - lo)") auto

declare searchsorted_loop.simps [simp del]

definition np_searchsorted :: "real list \<Rightarrow> real \<Rightarrow> nat" where
  "np_searchsorted a v = searchsorted_loop a v 0 (length a)"

text \<open>A slice \<^verbatim>\<open>xs[i:j]\<close> with \<open>0 \<le> i\<close> and \<open>0 \<le> j\<close>.\<close>

definition py_slice :: "'a list \<Rightarrow> nat \<Rightarrow> nat \<Rightarrow> 'a list" where
  "py_slice xs i j = take (j - i) (drop i xs)"

text \<open>\<^verbatim>\<open>list.insert(pos, v)\<close> with \<open>0 \<le> pos\<close>: beyond the end it appends.\<close>

definition py_insert :: "nat \<Rightarrow> 'a \<Rightarrow> 'a list \<Rightarrow> 'a list" where
  "py_insert pos v xs = take pos xs @ v # drop pos xs"

subsection \<open>Beat-to-Onset Refiner (\<^verbatim>\<open>refine_beats_to_onsets_advanced\<close>)\<close>

text \<open>
  The coarse beat frames and the onset frames are the int64 frame arrays of the beat
  tracker and the onset detector; the result is the float array \<^verbatim>\<open>refined\<close>.
  \<^verbatim>\<open>onset_frames - frame\<close> and \<^verbatim>\<open>np.diff(beat_frames)\<close> are int64 operations and
  wrap; \<^verbatim>\<open>int(frame) - search_window\<close> and the other window bounds are Python
  integers and do not. The parameters \<^verbatim>\<open>hop_length\<close> and \<^verbatim>\<open>sr\<close> are not read by
  the function.
\<close>

definition search_window :: "int list \<Rightarrow> int" where
  "search_window beat_frames =
     (let avg_beat_interval =
            (if length beat_frames > 1
             then np_median (map real_of_int (np_diff_int64 beat_frames))
             else 100)
      in max 4 (py_int (avg_beat_interval / 4)))"

text \<open>
  The body of the loop for one beat: the value \<^verbatim>\<open>refined[i]\<close> holds after the
  iteration, where \<open>old\<close> is the value it held before, kept when neither branch assigns.
\<close>

definition refine_beat :: "real list \<Rightarrow> int list \<Rightarrow> int \<Rightarrow> int \<Rightarrow> real \<Rightarrow> real" where
  "refine_beat onset_env onset_frames window frame old =
     (let onset_distances = map (\<lambda>onset. np_abs64 (wrap64 (onset - frame))) onset_frames;
          nearest_onset_idx = np_argmin onset_distances
      in if length onset_frames > 0 \<and> onset_distances ! nearest_onset_idx \<le> window
         then real_of_int (onset_frames ! nearest_onset_idx)
         else
           (let start = max 0 (frame - window);
                end = min (int (length onset_env)) (frame + window + 1)
            in if start < end
               then real_of_int
                      (start + int (np_argmax (py_slice onset_env (nat start) (nat end))))
               else old))"

text \<open>
  The loop over \<^verbatim>\<open>enumerate(beat_frames)\<close>: the beats still to visit, the index \<open>i\<close>
  of the first of them, and the array \<^verbatim>\<open>refined\<close>, updated in place.
\<close>

fun refine_loop ::
  "real list \<Rightarrow> int list \<Rightarrow> int \<Rightarrow> nat \<Rightarrow> int list \<Rightarrow> real list \<Rightarrow> real list" where
  "refine_loop onset_env onset_frames window i [] refined = refined"
| "refine_loop onset_env onset_frames window i (frame # rest) refined =
     refine_loop onset_env onset_frames window (Suc i) rest
       (refined[i := refine_beat onset_env onset_frames window frame (refined ! i)])"

definition refine_beats_to_onsets_advanced :: "real list \<Rightarrow> int list \<Rightarrow> int list \<Rightarrow> real list" where
  "refine_beats_to_onsets_advanced onset_env beat_frames onset_frames =
     refine_loop onset_env onset_frames (search_window beat_frames) 0 beat_frames
       (map real_of_int beat_frames)"

text \<open>
  The specification's wording of the peak fallback, for comparison with the code: \<open>p\<close> is
  the position of a frame of the envelope within \<open>window\<close> frames of the coarse beat
  whose envelope value is greatest among the frames of the envelope in that range.
\<close>

definition in_window :: "int \<Rightarrow> int \<Rightarrow> nat \<Rightarrow> bool" where
  "in_window frame window k = (\<bar>int k - frame\<bar> \<le> window)"



subsection \<open>Offbeat / Phase-Shift Detector (\<^verbatim>\<open>detect_and_insert_offbeats\<close>)\<close>

text \<open>
  The parameters \<^verbatim>\<open>onset_env\<close>, \<^verbatim>\<open>tempo\<close>, \<^verbatim>\<open>hop_length\<close> and \<^verbatim>\<open>sr\<close> are
  not read by the function and are left out. Both frame sequences are the float arrays
  the function converts its arguments to.
\<close>

text \<open>
  The first loop, for one onset: its phase in the enclosing beat interval and the index
  of that interval, or nothing when the onset is discarded. \<^verbatim>\<open>phase % 1.0\<close> is the
  fractional part.
\<close>

definition onset_phase :: "real list \<Rightarrow> real \<Rightarrow> (real \<times> nat) option" where
  "onset_phase beat_frames onset =
     (let beat_idx = int (np_searchsorted beat_frames onset) - 1
      in if 0 \<le> beat_idx \<and> beat_idx < int (length beat_frames) - 1 then
           (let beat_start = beat_frames ! nat beat_idx;
                local_interval = beat_frames ! (nat beat_idx + 1) - beat_start
            in if local_interval > 0
               then Some (frac ((onset - beat_start) / local_interval), nat beat_idx)
               else None)
         else None)"

definition onset_phase_samples :: "real list \<Rightarrow> real list \<Rightarrow> (real \<times> nat) list" where
  "onset_phase_samples beat_frames onset_frames =
     List.map_filter (onset_phase beat_frames) onset_frames"

datatype shift_type = to_offbeat | start_offbeat | to_onbeat

record phase_shift =
  beat_idx :: nat
  phase :: real
  type :: shift_type

definition window_size :: nat where
  "window_size = 8"

definition offbeat_phases :: "real list" where
  "offbeat_phases = [0.5, 0.25, 0.75]"

definition phase_tolerance :: real where
  "phase_tolerance = 0.15"

text \<open>\<^verbatim>\<open>np.mean(np.abs(w - offbeat_phase) < phase_tolerance)\<close> on a window \<open>w\<close>.\<close>

definition offbeat_ratio :: "real \<Rightarrow> real list \<Rightarrow> real" where
  "offbeat_ratio offbeat_phase w =
     real (length (filter (\<lambda>x. \<bar>x - offbeat_phase\<bar> < phase_tolerance) w)) / real (length w)"

definition onbeat_ratio :: "real list \<Rightarrow> real" where
  "onbeat_ratio w =
     real (length (filter (\<lambda>x. x < phase_tolerance \<or> x > 1 - phase_tolerance) w))
       / real (length w)"

text \<open>The events one window appends for one candidate offbeat phase.\<close>

definition offbeat_events :: "real list \<Rightarrow> nat list \<Rightarrow> nat \<Rightarrow> real \<Rightarrow> phase_shift list" where
  "offbeat_events onset_phases onset_beat_indices i offbeat_phase =
     (let window_phases = py_slice onset_phases i (i + window_size);
          window_beat_idx = py_slice onset_beat_indices i (i + window_size)
      in if offbeat_ratio offbeat_phase window_phases > 0.6 then
           (if i \<ge> window_size then
              (let prev_window_phases = py_slice onset_phases (i - window_size) i
               in if offbeat_ratio offbeat_phase prev_window_phases < 0.4
                  then [\<lparr>beat_idx = window_beat_idx ! 0, phase = offbeat_phase,
                          type = to_offbeat\<rparr>]
                  else [])
            else if i = 0
                 then [\<lparr>beat_idx = 0, phase = offbeat_phase, type = start_offbeat\<rparr>]
                 else [])
         else [])"

text \<open>The event one window appends for a transition back to on-beat.\<close>

definition onbeat_events :: "real list \<Rightarrow> nat list \<Rightarrow> nat \<Rightarrow> phase_shift list" where
  "onbeat_events onset_phases onset_beat_indices i =
     (if onbeat_ratio (py_slice onset_phases i (i + window_size)) > 0.6 \<and> i \<ge> window_size then
        (let prev_window_phases = py_slice onset_phases (i - window_size) i
         in if list_ex (\<lambda>offbeat_phase. offbeat_ratio offbeat_phase prev_window_phases > 0.5)
                 offbeat_phases
            then [\<lparr>beat_idx = onset_beat_indices ! i, phase = 0, type = to_onbeat\<rparr>]
            else [])
      else [])"

definition detect_phase_shifts :: "real list \<Rightarrow> nat list \<Rightarrow> phase_shift list" where
  "detect_phase_shifts onset_phases onset_beat_indices =
     concat (map (\<lambda>i. concat (map (offbeat_events onset_phases onset_beat_indices i)
                                  offbeat_phases)
                      @ onbeat_events onset_phases onset_beat_indices i)
               [0..<length onset_phases - window_size])"

text \<open>The de-duplication loop: the first event of each beat index is kept.\<close>

fun unique_shifts :: "nat set \<Rightarrow> phase_shift list \<Rightarrow> phase_shift list" where
  "unique_shifts seen_beats [] = []"
| "unique_shifts seen_beats (shift # rest) =
     (if beat_idx shift \<notin> seen_beats
      then shift # unique_shifts (insert (beat_idx shift) seen_beats) rest
      else unique_shifts seen_beats rest)"

text \<open>The position inserted for one event with \<^verbatim>\<open>phase > 0.01\<close>.\<close>

definition offbeat_position :: "real list \<Rightarrow> real list \<Rightarrow> phase_shift \<Rightarrow> real" where
  "offbeat_position beat_frames onset_frames shift =
     (let beat_start = beat_frames ! beat_idx shift;
          local_interval = beat_frames ! (beat_idx shift + 1) - beat_start;
          offbeat_frame = beat_start + phase shift * local_interval;
          onset_distances = map (\<lambda>onset. \<bar>onset - offbeat_frame\<bar>) onset_frames
      in if length onset_distances > 0 then
           (let nearest_idx = np_argmin onset_distances
            in if onset_distances ! nearest_idx < local_interval * 0.2
               then onset_frames ! nearest_idx
               else offbeat_frame)
         else offbeat_frame)"

text \<open>
  The insertion loop over the events sorted by beat index, with its variables
  \<^verbatim>\<open>new_beats\<close> and \<^verbatim>\<open>inserted_count\<close>.
\<close>

fun insert_shifts ::
  "real list \<Rightarrow> real list \<Rightarrow> phase_shift list \<Rightarrow> real list \<Rightarrow> nat \<Rightarrow> real list" where
  "insert_shifts beat_frames onset_frames [] new_beats inserted_count = new_beats"
| "insert_shifts beat_frames onset_frames (shift # rest) new_beats inserted_count =
     (if int (beat_idx shift) \<ge> int (length beat_frames) - 1
      then insert_shifts beat_frames onset_frames rest new_beats inserted_count
      else if phase shift > 0.01
      then insert_shifts beat_frames onset_frames rest
             (py_insert (beat_idx shift + 1 + inserted_count)
                (offbeat_position beat_frames onset_frames shift) new_beats)
             (inserted_count + 1)
      else insert_shifts beat_frames onset_frames rest new_beats inserted_count)"

definition detected_shifts :: "real list \<Rightarrow> real list \<Rightarrow> phase_shift list" where
  "detected_shifts beat_frames onset_frames =
     (let samples = onset_phase_samples beat_frames onset_frames
      in unique_shifts {} (detect_phase_shifts (map fst samples) (map snd samples)))"

definition detect_and_insert_offbeats :: "real list \<Rightarrow> real list \<Rightarrow> real list" where
  "detect_and_insert_offbeats beat_frames onset_frames =
     (if length beat_frames < 4 \<or> length onset_frames < 4 then beat_frames
      else if np_median (np_diff beat_frames) \<le> 0 then beat_frames
      else if length (onset_phase_samples beat_frames onset_frames) < 4 then beat_frames
      else if detected_shifts beat_frames onset_frames = [] then beat_frames
      else sort (remdups
             (insert_shifts beat_frames onset_frames
                (sort_key beat_idx (detected_shifts beat_frames onset_frames))
                beat_frames 0)))"

text \<open>
  The condition under which the function leaves through one of its four early
  \<^verbatim>\<open>return beat_frames\<close> statements, in the order the source tests them.
\<close>

definition returns_early :: "real list \<Rightarrow> real list \<Rightarrow> bool" where
  "returns_early beat_frames onset_frames =
     (length beat_frames < 4 \<or> length onset_frames < 4
      \<or> np_median (np_diff beat_frames) \<le> 0
      \<or> length (onset_phase_samples beat_frames onset_frames) < 4
      \<or> detected_shifts beat_frames onset_frames = [])"

subsection \<open>Sub-frame Time Interpolator (\<^verbatim>\<open>frames_to_time_precise\<close>)\<close>

text \<open>
  The parabolic offset. Its divisor is zero when the two differences to the neighbours
  add up to \<open>1e-8\<close>; NumPy then yields \<open>inf\<close> or \<open>nan\<close>, no real number, which the model
  reports as \<open>None\<close>.
\<close>

definition parabolic_offset :: "real \<Rightarrow> real \<Rightarrow> real \<Rightarrow> real option" where
  "parabolic_offset alpha beta gamma =
     (let d = alpha - 2 * beta + gamma + 1 / 100000000
      in if d = 0 then None else Some (0.5 * (alpha - gamma) / d))"

definition refined_frame :: "real list \<Rightarrow> real \<Rightarrow> real option" where
  "refined_frame onset_env frame =
     (let frame_int = py_int frame
      in if 1 \<le> frame_int \<and> frame_int < int (length onset_env) - 1 then
           (let alpha = onset_env ! nat (frame_int - 1);
                beta = onset_env ! nat frame_int;
                gamma = onset_env ! nat (frame_int + 1)
            in if beta > alpha \<and> beta > gamma
               then (case parabolic_offset alpha beta gamma of
                       None \<Rightarrow> None
                     | Some p \<Rightarrow> Some (real_of_int frame_int + p))
               else Some frame)
         else Some frame)"

text \<open>
  The conversion \<^verbatim>\<open>refined_frame * hop_length / sr\<close> of one frame. With a sample rate
  of zero Python raises \<^verbatim>\<open>ZeroDivisionError\<close> (or NumPy yields \<open>inf\<close> or \<open>nan\<close>),
  which the model reports as \<open>None\<close>.
\<close>

definition frame_time :: "nat \<Rightarrow> nat \<Rightarrow> real \<Rightarrow> real option" where
  "frame_time hop_length sr r = (if sr = 0 then None else Some (r * real hop_length / real sr))"

fun frames_to_time_precise :: "real list \<Rightarrow> real list \<Rightarrow> nat \<Rightarrow> nat \<Rightarrow> real list option" where
  "frames_to_time_precise [] onset_env hop_length sr = Some []"
| "frames_to_time_precise (frame # frames) onset_env hop_length sr =
     (case refined_frame onset_env frame of
        None \<Rightarrow> None
      | Some r \<Rightarrow>
          (case frame_time hop_length sr r of
             None \<Rightarrow> None
           | Some t \<Rightarrow>
               (case frames_to_time_precise frames onset_env hop_length sr of
                  None \<Rightarrow> None
                | Some ts \<Rightarrow> Some (t # ts))))"

subsection \<open>Instantaneous BPM (\<^verbatim>\<open>analyze_bpm\<close>, lines 152-154)\<close>

text \<open>
  \<^verbatim>\<open>60.0 / beat_intervals\<close> divides elementwise. A zero divisor gives no real
  number (NumPy yields \<open>inf\<close> with a warning), which the model reports as \<open>None\<close>.
\<close>

fun scalar_divide :: "real \<Rightarrow> real list \<Rightarrow> real list option" where
  "scalar_divide c [] = Some []"
| "scalar_divide c (d # ds) =
     (if d = 0 then None
      else case scalar_divide c ds of None \<Rightarrow> None | Some qs \<Rightarrow> Some (c / d # qs))"

definition clamp_intervals :: "real list \<Rightarrow> real list" where
  "clamp_intervals beat_times = map (\<lambda>d. max d (1 / 1000000)) (np_diff beat_times)"

definition instantaneous_bpms :: "real list \<Rightarrow> real list option" where
  "instantaneous_bpms beat_times = scalar_divide 60 (clamp_intervals beat_times)"

subsection \<open>BPM Stabilizer (\<^verbatim>\<open>stabilize_bpm_sections\<close>)\<close>

record timing_section =
  start_idx :: nat
  end_idx :: nat
  bpm :: real
  time :: real

text \<open>
  The segmentation loop over \<^verbatim>\<open>range(1, len(bpms))\<close>. The arguments are the BPM
  values still to visit, the index \<open>i\<close> of the first of them, and the loop's variables
  \<^verbatim>\<open>current_section_start\<close>, \<^verbatim>\<open>current_section_bpms\<close> and \<^verbatim>\<open>sections\<close>.
\<close>

fun segment_scan ::
  "real list \<Rightarrow> real \<Rightarrow> real list \<Rightarrow> nat \<Rightarrow> nat \<Rightarrow> real list \<Rightarrow> timing_section list
   \<Rightarrow> (timing_section list \<times> nat \<times> real list) option" where
  "segment_scan beat_times tolerance [] i cur_start cur_bpms sections =
     Some (sections, cur_start, cur_bpms)"
| "segment_scan beat_times tolerance (b # rest) i cur_start cur_bpms sections =
     (if \<bar>b - np_median cur_bpms\<bar> \<le> tolerance
      then segment_scan beat_times tolerance rest (Suc i) cur_start (cur_bpms @ [b]) sections
      else case py_index beat_times cur_start of
             None \<Rightarrow> None
           | Some t \<Rightarrow>
               segment_scan beat_times tolerance rest (Suc i) i [b]
                 (sections @ [\<lparr>start_idx = cur_start, end_idx = i - 1,
                               bpm = np_median cur_bpms, time = t\<rparr>]))"

definition find_sections :: "real list \<Rightarrow> real list \<Rightarrow> real \<Rightarrow> timing_section list option" where
  "find_sections beat_times bpms tolerance =
     (case segment_scan beat_times tolerance (tl bpms) 1 0 [hd bpms] [] of
        None \<Rightarrow> None
      | Some (sections, cur_start, cur_bpms) \<Rightarrow>
          (case py_index beat_times cur_start of
             None \<Rightarrow> None
           | Some t \<Rightarrow>
               Some (sections @ [\<lparr>start_idx = cur_start, end_idx = length bpms - 1,
                                   bpm = np_median cur_bpms, time = t\<rparr>])))"

text \<open>
  One iteration of the merge loop. \<^verbatim>\<open>last_count\<close> is read after \<^verbatim>\<open>end_idx\<close> of the
  last merged section has been extended, as in the source.
\<close>

definition merge_step :: "real \<Rightarrow> timing_section list \<Rightarrow> timing_section \<Rightarrow> timing_section list" where
  "merge_step tolerance merged s =
     (if merged \<noteq> [] then
        (let l = last merged in
         if \<bar>bpm s - bpm l\<bar> \<le> tolerance then
           (let l1 = l\<lparr>end_idx := end_idx s\<rparr>;
                last_count = int (end_idx l1) - int (start_idx l1) + 1;
                curr_count = int (end_idx s) - int (start_idx s) + 1
            in butlast merged @
               [l1\<lparr>bpm := (bpm l1 * real_of_int last_count + bpm s * real_of_int curr_count)
                            / real_of_int (last_count + curr_count)\<rparr>])
         else merged @ [s])
      else merged @ [s])"

definition merge_sections :: "real \<Rightarrow> timing_section list \<Rightarrow> timing_section list" where
  "merge_sections tolerance sections = foldl (merge_step tolerance) [] sections"

text \<open>The closing time appended after the last merged section.\<close>

definition closing_time :: "real list \<Rightarrow> timing_section \<Rightarrow> real option" where
  "closing_time beat_times s =
     (if end_idx s + 1 < length beat_times then py_index beat_times (end_idx s + 1)
      else py_last beat_times)"

fun build_output :: "real list \<Rightarrow> timing_section list \<Rightarrow> (real list \<times> real list) option" where
  "build_output beat_times [] = Some ([], [])"
| "build_output beat_times [s] =
     (case closing_time beat_times s of
        None \<Rightarrow> None
      | Some c \<Rightarrow> Some ([time s, c], [bpm s]))"
| "build_output beat_times (s # rest) =
     (case build_output beat_times rest of
        None \<Rightarrow> None
      | Some (ts, bs) \<Rightarrow> Some (time s # ts, bpm s # bs))"

definition stabilize_bpm_sections ::
  "real list \<Rightarrow> real list \<Rightarrow> real \<Rightarrow> (real list \<times> real list) option" where
  "stabilize_bpm_sections beat_times bpms tolerance =
     (if length bpms < 2 then Some (beat_times, bpms)
      else case find_sections beat_times bpms tolerance of
             None \<Rightarrow> None
           | Some sections \<Rightarrow> build_output beat_times (merge_sections tolerance sections))"

text \<open>
  Two properties of a list of sections used to state results about the merge pass:
  every two neighbouring sections differ in BPM by more than the tolerance, and the
  sections cover increasing, non-overlapping, non-empty index ranges.
\<close>

fun adjacent_apart :: "real \<Rightarrow> timing_section list \<Rightarrow> bool" where
  "adjacent_apart tolerance [] = True"
| "adjacent_apart tolerance [a] = True"
| "adjacent_apart tolerance (a # b # rest) =
     (tolerance < \<bar>bpm b - bpm a\<bar> \<and> adjacent_apart tolerance (b # rest))"

fun ordered_sections :: "timing_section list \<Rightarrow> bool" where
  "ordered_sections [] = True"
| "ordered_sections [a] = (start_idx a \<le> end_idx a)"
| "ordered_sections (a # b # rest) =
     (start_idx a \<le> end_idx a \<and> end_idx a < start_idx b \<and> ordered_sections (b # rest))"

text \<open>
  Properties of an envelope and a frame sequence used to state results about the
  interpolator. \<open>strict_peak\<close> is the source's test for interpolating at frame \<open>k\<close>;
  \<open>clear_peak\<close> says that the peak exceeds both neighbours by at least \<open>1e-8\<close>, the
  constant added to the divisor. An interpolated frame is placed within half a frame of
  its integer part, a frame that is not interpolated keeps its position:
  \<open>frame_low\<close> and \<open>frame_high\<close> bound where a frame can land, and
  \<open>half_frame_separated\<close> says that of two consecutive frames the first cannot land
  beyond the second, or that both are interpolated at the same integer part.
\<close>

definition strict_peak :: "real list \<Rightarrow> int \<Rightarrow> bool" where
  "strict_peak onset_env k =
     (1 \<le> k \<and> k < int (length onset_env) - 1
      \<and> onset_env ! nat (k - 1) < onset_env ! nat k
      \<and> onset_env ! nat (k + 1) < onset_env ! nat k)"

definition clear_peak :: "real list \<Rightarrow> int \<Rightarrow> bool" where
  "clear_peak onset_env k =
     (onset_env ! nat (k - 1) + 1 / 100000000 \<le> onset_env ! nat k
      \<and> onset_env ! nat (k + 1) + 1 / 100000000 \<le> onset_env ! nat k)"

definition frame_low :: "real list \<Rightarrow> real \<Rightarrow> real" where
  "frame_low onset_env frame =
     (if strict_peak onset_env (py_int frame) then real_of_int (py_int frame) - 1 / 2 else frame)"

definition frame_high :: "real list \<Rightarrow> real \<Rightarrow> real" where
  "frame_high onset_env frame =
     (if strict_peak onset_env (py_int frame) then real_of_int (py_int frame) + 1 / 2 else frame)"

fun half_frame_separated :: "real list \<Rightarrow> real list \<Rightarrow> bool" where
  "half_frame_separated onset_env [] = True"
| "half_frame_separated onset_env [f] = True"
| "half_frame_separated onset_env (f # g # rest) =
     ((frame_high onset_env f \<le> frame_low onset_env g
       \<or> (strict_peak onset_env (py_int f) \<and> py_int f = py_int g))
      \<and> half_frame_separated onset_env (g # rest))"

section \<open>Verified properties\<close>

subsection \<open>Instantaneous BPM\<close>

lemma scalar_divide_pos:
  "\<forall>d \<in> set ds. 0 < d \<Longrightarrow> 0 < c \<Longrightarrow>
     \<exists>qs. scalar_divide c ds = Some qs \<and> length qs = length ds \<and> (\<forall>q \<in> set qs. 0 < q)"
  by (induction ds) auto

lemma clamp_intervals_pos: "\<forall>d \<in> set (clamp_intervals beat_times). 1 / 1000000 \<le> d"
  by (auto simp: clamp_intervals_def)

text \<open>
  Claim C8. The instantaneous BPM computation never divides by zero: every clamped
  interval is at least \<open>1e-6\<close>, so the division is defined for every sequence of beat
  times, every BPM value is strictly positive, and an interval of exactly 0 seconds
  gives \<open>60 / 1e-6 = 60000000\<close>.
\<close>

theorem instantaneous_bpm_total_and_positive:
  "(\<exists>bs. instantaneous_bpms beat_times = Some bs
          \<and> length bs = length (np_diff beat_times) \<and> (\<forall>b \<in> set bs. 0 < b))
   \<and> instantaneous_bpms [t, t] = Some [60 / (1 / 1000000)]
   \<and> instantaneous_bpms [t, t] = Some [60000000]"
proof -
  have "\<forall>d \<in> set (clamp_intervals beat_times). 0 < d"
    using clamp_intervals_pos[of beat_times] by force
  then have "\<exists>qs. scalar_divide 60 (clamp_intervals beat_times) = Some qs
      \<and> length qs = length (clamp_intervals beat_times) \<and> (\<forall>q \<in> set qs. 0 < q)"
    by (rule scalar_divide_pos) simp
  then show ?thesis by (simp add: instantaneous_bpms_def clamp_intervals_def)
qed

theorem instantaneous_bpm_total_and_positive_witness:
  "(\<exists>bs. instantaneous_bpms [0, 1 / 2, 1 / 2, 1] = Some bs
          \<and> length bs = length (np_diff [0, 1 / 2, 1 / 2, 1 :: real]) \<and> (\<forall>b \<in> set bs. 0 < b))
   \<and> instantaneous_bpms [1 / 2, 1 / 2] = Some [60000000]
   \<and> instantaneous_bpms [0, 1 / 2, 1 / 2, 1] = Some [120, 60000000, 120]"
proof -
  have "instantaneous_bpms [0, 1 / 2, 1 / 2, 1] = Some [120, 60000000, 120]"
    by (simp add: instantaneous_bpms_def clamp_intervals_def)
  then show ?thesis
    using instantaneous_bpm_total_and_positive[of "[0, 1 / 2, 1 / 2, 1]" "1 / 2"] by simp
qed


subsection \<open>BPM Stabilizer: output shape\<close>









text \<open>
  Claim C6. On the BPM sequence \<open>[120, 120.5, 121, 150, 150.2]\<close> with tolerance 2 the
  stabilizer finds exactly two sections, with BPM 120.5 (the median of the first three
  values) and 150.1 (the median of the last two), and returns two timing points and one
  trailing closing time, for the six beat times such a BPM sequence comes from.
\<close>

theorem stabilizer_scenario_two_sections:
  "find_sections [t0, t1, t2, t3, t4, t5] [120, 120.5, 121, 150, 150.2] 2
     = Some [\<lparr>start_idx = 0, end_idx = 2, bpm = 120.5, time = t0\<rparr>,
             \<lparr>start_idx = 3, end_idx = 4, bpm = 150.1, time = t3\<rparr>]
   \<and> np_median [120, 120.5, 121] = 120.5 \<and> np_median [150, 150.2] = 150.1
   \<and> stabilize_bpm_sections [t0, t1, t2, t3, t4, t5] [120, 120.5, 121, 150, 150.2] 2
     = Some ([t0, t3, t5], [120.5, 150.1])"
  by (simp add: stabilize_bpm_sections_def find_sections_def np_median_def py_index_def
      merge_sections_def merge_step_def closing_time_def)

subsection \<open>Beat-to-Onset Refiner: cardinality\<close>

lemma length_refine_loop:
  "length (refine_loop onset_env onset_frames window i frames refined) = length refined"
  by (induction frames arbitrary: i refined) simp_all




text \<open>
  Claim C9. For every envelope, coarse beat-frame sequence and onset-frame sequence the
  refiner returns as many beats as it was given.
\<close>

theorem refiner_preserves_length:
  "length (refine_beats_to_onsets_advanced onset_env beat_frames onset_frames) = length beat_frames"
  by (simp add: refine_beats_to_onsets_advanced_def length_refine_loop)

subsection \<open>Offbeat Detector: pass-through on too little data\<close>

text \<open>
  Claim C7. With fewer than 4 beats, fewer than 4 onsets or fewer than 4 onset-phase
  samples the detector returns the input beat-frame sequence unchanged. The function has
  no raising path, so the equation also says that it returns.
\<close>

theorem detector_identity_on_short_input:
  "length beat_frames < 4 \<or> length onset_frames < 4
     \<or> length (onset_phase_samples beat_frames onset_frames) < 4
   \<Longrightarrow> detect_and_insert_offbeats beat_frames onset_frames = beat_frames"
  by (auto simp: detect_and_insert_offbeats_def)

theorem detector_identity_on_short_input_witness:
  "(length [0, 100, 200, 300, 400 :: real] < 4 \<or> length [150, 250, 350 :: real] < 4
     \<or> length (onset_phase_samples [0, 100, 200, 300, 400] [150, 250, 350]) < 4)
   \<and> detect_and_insert_offbeats [0, 100, 200, 300, 400] [150, 250, 350] = [0, 100, 200, 300, 400]
   \<and> length (onset_phase_samples [0, 100, 200, 300, 400] [401, 402, 403, 404, 405]) < 4
   \<and> detect_and_insert_offbeats [0, 100, 200, 300, 400] [401, 402, 403, 404, 405] = [0, 100, 200, 300, 400]"
proof -
  have a: "length (onset_phase_samples [0, 100, 200, 300, 400] [401, 402, 403, 404, 405]) < 4"
    by code_simp
  show ?thesis
    using detector_identity_on_short_input[of "[0, 100, 200, 300, 400]" "[150, 250, 350]"]
      detector_identity_on_short_input[of "[0, 100, 200, 300, 400]" "[401, 402, 403, 404, 405]"] a
    by simp
qed

subsection \<open>Offbeat Detector: length of the output\<close>

lemma set_py_insert: "set (py_insert pos v xs) = insert v (set xs)"
proof -
  have "set (take pos xs) \<union> set (drop pos xs) = set xs"
    by (metis append_take_drop_id set_append)
  then show ?thesis by (auto simp: py_insert_def)
qed

lemma insert_shifts_keeps:
  "set new_beats \<subseteq> set (insert_shifts beat_frames onset_frames shifts new_beats k)"
proof (induction shifts arbitrary: new_beats k)
  case Nil
  then show ?case by simp
next
  case (Cons shift shifts)
  have "set new_beats \<subseteq> set (py_insert (beat_idx shift + 1 + k)
           (offbeat_position beat_frames onset_frames shift) new_beats)"
    by (auto simp: set_py_insert)
  then show ?case using Cons.IH by (auto simp: Let_def)
qed

lemma length_sort_remdups_ge:
  fixes xs ys :: "real list"
  assumes "set xs \<subseteq> set ys"
  shows "card (set xs) \<le> length (sort (remdups ys))"
proof -
  have "length (sort (remdups ys)) = card (set ys)" by (simp add: length_remdups_card_conv)
  moreover have "card (set xs) \<le> card (set ys)" using assms by (simp add: card_mono)
  ultimately show ?thesis by simp
qed

lemma detector_distinct_count:
  "card (set beat_frames) \<le> length (detect_and_insert_offbeats beat_frames onset_frames)"
  using length_sort_remdups_ge[OF insert_shifts_keeps] card_length[of beat_frames]
  by (simp add: detect_and_insert_offbeats_def)

text \<open>
  Claim C1, as amended. The output has at least as many entries as the input has
  distinct frame values; so it is at least as long as the input when the input has no
  repeated frame value.
\<close>

theorem detector_length_at_least_distinct_input:
  "card (set beat_frames) \<le> length (detect_and_insert_offbeats beat_frames onset_frames)
   \<and> (distinct beat_frames \<longrightarrow>
        length beat_frames \<le> length (detect_and_insert_offbeats beat_frames onset_frames))"
  using detector_distinct_count[of beat_frames onset_frames] by (auto simp: distinct_card)

theorem detector_length_at_least_distinct_input_witness:
  "distinct [0, 100, 200, 300 :: real]
   \<and> detect_and_insert_offbeats [0, 100, 200, 300] [46, 47, 48, 49, 50, 51, 52, 53, 54]
       = [0, 50, 100, 200, 300]
   \<and> length [0, 100, 200, 300 :: real]
       \<le> length (detect_and_insert_offbeats [0, 100, 200, 300] [46, 47, 48, 49, 50, 51, 52, 53, 54])"
proof -
  have "detect_and_insert_offbeats [0, 100, 200, 300] [46, 47, 48, 49, 50, 51, 52, 53, 54]
       = [0, 50, 100, 200, 300]"
    by code_simp
  then show ?thesis
    using detector_length_at_least_distinct_input[of "[0, 100, 200, 300]" "[46, 47, 48, 49, 50, 51, 52, 53, 54]"]
    by simp
qed

text \<open>
  Claim C1 as stated fails when the input repeats a frame value: the final
  \<^verbatim>\<open>sorted(set(new_beats))\<close> removes the repetitions. Five beats with the frame 200
  three times, and nine onsets around the half-beat of the first interval, give four.
\<close>

theorem detector_shrinks_repeated_input:
  "detect_and_insert_offbeats [0, 100, 200, 200, 200] [46, 47, 48, 49, 50, 51, 52, 53, 54]
     = [0, 50, 100, 200]
   \<and> \<not> length [0, 100, 200, 200, 200 :: real]
        \<le> length (detect_and_insert_offbeats [0, 100, 200, 200, 200]
                    [46, 47, 48, 49, 50, 51, 52, 53, 54])"
proof -
  have "detect_and_insert_offbeats [0, 100, 200, 200, 200] [46, 47, 48, 49, 50, 51, 52, 53, 54]
     = [0, 50, 100, 200]"
    by code_simp
  then show ?thesis by simp
qed

subsection \<open>Offbeat Detector: ordering of the output\<close>

lemma strict_sort_remdups: "sorted_wrt (<) (sort (remdups (xs :: real list)))"
  by (simp add: strict_sorted_iff)

text \<open>
  Claim C2, as amended. On the four early returns the output is the input itself; when
  the function reaches its insertion stage the output is strictly increasing; hence the
  output is strictly increasing on every path whenever the input is.
\<close>

theorem detector_output_strictly_increasing:
  "(returns_early beat_frames onset_frames \<longrightarrow>
      detect_and_insert_offbeats beat_frames onset_frames = beat_frames)
   \<and> (\<not> returns_early beat_frames onset_frames \<longrightarrow>
      sorted_wrt (<) (detect_and_insert_offbeats beat_frames onset_frames))
   \<and> (sorted_wrt (<) beat_frames \<longrightarrow>
      sorted_wrt (<) (detect_and_insert_offbeats beat_frames onset_frames))"
  using strict_sort_remdups
  by (auto simp: detect_and_insert_offbeats_def returns_early_def)

theorem detector_output_strictly_increasing_witness:
  "returns_early [10, 20, 30] [10, 20, 30, 40]
   \<and> detect_and_insert_offbeats [10, 20, 30] [10, 20, 30, 40] = [10, 20, 30]
   \<and> sorted_wrt (<) [10, 20, 30 :: real]
   \<and> \<not> returns_early [0, 200, 100, 300] [46, 47, 48, 49, 50, 51, 52, 53, 54]
   \<and> sorted_wrt (<) (detect_and_insert_offbeats [0, 200, 100, 300] [46, 47, 48, 49, 50, 51, 52, 53, 54])"
proof -
  have a: "returns_early [10, 20, 30] [10, 20, 30, 40]" by (simp add: returns_early_def)
  have b: "\<not> returns_early [0, 200, 100, 300] [46, 47, 48, 49, 50, 51, 52, 53, 54]"
    by code_simp
  show ?thesis
    using a b detector_output_strictly_increasing[of "[10, 20, 30]" "[10, 20, 30, 40]"]
      detector_output_strictly_increasing[of "[0, 200, 100, 300]" "[46, 47, 48, 49, 50, 51, 52, 53, 54]"]
    by simp
qed

text \<open>
  Claim C2 as stated fails on the early returns, which hand back the input as it is:
  three beats with a repeated frame come back with the repetition.
\<close>

theorem detector_early_return_keeps_duplicates:
  "detect_and_insert_offbeats [5, 5, 7] [5, 6, 7, 8] = [5, 5, 7]
   \<and> \<not> sorted_wrt (<) (detect_and_insert_offbeats [5, 5, 7] [5, 6, 7, 8])"
  by (simp add: detect_and_insert_offbeats_def)

subsection \<open>BPM Stabilizer: the merge pass\<close>

lemma adjacent_apart_append:
  "adjacent_apart tol (xs @ a # ys) \<longleftrightarrow> adjacent_apart tol (xs @ [a]) \<and> adjacent_apart tol (a # ys)"
proof (induction tol xs rule: adjacent_apart.induct)
  case (1 tolerance)
  then show ?case by simp
next
  case (2 tolerance v)
  then show ?case by (cases ys) auto
next
  case (3 tolerance x y rest)
  then show ?case by auto
qed

lemma merge_step_apart:
  assumes "adjacent_apart tol (acc @ s # rest)"
  shows "merge_step tol acc s = acc @ [s]"
proof (cases "acc = []")
  case True
  then show ?thesis by (simp add: merge_step_def)
next
  case False
  then have "acc = butlast acc @ [last acc]" by simp
  then have "adjacent_apart tol (butlast acc @ last acc # s # rest)"
    using assms by (metis append.assoc append_Cons append_Nil)
  then have "adjacent_apart tol (last acc # s # rest)"
    using adjacent_apart_append[of tol "butlast acc" "last acc" "s # rest"] by simp
  then show ?thesis using False by (simp add: merge_step_def)
qed

lemma foldl_merge_apart:
  "adjacent_apart tol (acc @ secs) \<Longrightarrow> foldl (merge_step tol) acc secs = acc @ secs"
proof (induction secs arbitrary: acc)
  case Nil
  then show ?case by simp
next
  case (Cons s secs)
  have "merge_step tol acc s = acc @ [s]" using Cons.prems by (rule merge_step_apart)
  moreover have "adjacent_apart tol ((acc @ [s]) @ secs)" using Cons.prems by simp
  ultimately show ?case using Cons.IH[of "acc @ [s]"] by simp
qed

lemma merge_sections_apart: "adjacent_apart tol secs \<Longrightarrow> merge_sections tol secs = secs"
  using foldl_merge_apart[of tol "[]" secs] by (simp add: merge_sections_def)

lemma length_merge_step: "length (merge_step tol acc s) \<le> Suc (length acc)"
  by (simp add: merge_step_def Let_def)

lemma length_foldl_merge: "length (foldl (merge_step tol) acc secs) \<le> length acc + length secs"
proof (induction secs arbitrary: acc)
  case Nil
  then show ?case by simp
next
  case (Cons s secs)
  show ?case using Cons.IH[of "merge_step tol acc s"] length_merge_step[of tol acc s] by simp
qed

lemma first_close_pair:
  "\<not> adjacent_apart tol xs \<Longrightarrow>
   \<exists>pre a b post. xs = pre @ a # b # post \<and> adjacent_apart tol (pre @ [a]) \<and> \<bar>bpm b - bpm a\<bar> \<le> tol"
proof (induction tol xs rule: adjacent_apart.induct)
  case (1 tol)
  then show ?case by simp
next
  case (2 tol v)
  then show ?case by simp
next
  case (3 tol a b rest)
  show ?case
  proof (cases "\<bar>bpm b - bpm a\<bar> \<le> tol")
    case True
    then have "a # b # rest = [] @ a # b # rest \<and> adjacent_apart tol ([] @ [a]) \<and> \<bar>bpm b - bpm a\<bar> \<le> tol"
      by simp
    then show ?thesis by blast
  next
    case False
    then have "\<not> adjacent_apart tol (b # rest)" using "3.prems" by simp
    then obtain pre a' b' post where
      d: "b # rest = pre @ a' # b' # post" "adjacent_apart tol (pre @ [a'])" "\<bar>bpm b' - bpm a'\<bar> \<le> tol"
      using "3.IH" by blast
    have "adjacent_apart tol ((a # pre) @ [a'])"
    proof (cases pre)
      case Nil
      then show ?thesis using d(1) False by simp
    next
      case (Cons p pre')
      then show ?thesis using d(1,2) False by simp
    qed
    moreover have "a # b # rest = (a # pre) @ a' # b' # post" using d(1) by simp
    ultimately show ?thesis using d(3) by blast
  qed
qed

lemma merge_sections_shrinks:
  assumes "\<not> adjacent_apart tol xs"
  shows "length (merge_sections tol xs) < length xs"
proof -
  obtain pre a b post where
    d: "xs = pre @ a # b # post" "adjacent_apart tol (pre @ [a])" "\<bar>bpm b - bpm a\<bar> \<le> tol"
    using first_close_pair[OF assms] by blast
  have p: "foldl (merge_step tol) [] (pre @ [a]) = pre @ [a]"
    using foldl_merge_apart[of tol "[]" "pre @ [a]"] d(2) by simp
  have "length (merge_step tol (pre @ [a]) b) = Suc (length pre)"
    using d(3) by (simp add: merge_step_def Let_def)
  then have "length (foldl (merge_step tol) (merge_step tol (pre @ [a]) b) post)
      \<le> Suc (length pre) + length post"
    using length_foldl_merge[of tol "merge_step tol (pre @ [a]) b" post] by simp
  moreover have "merge_sections tol xs = foldl (merge_step tol) (merge_step tol (pre @ [a]) b) post"
  proof -
    have "xs = (pre @ [a]) @ b # post" using d(1) by simp
    then have "merge_sections tol xs = foldl (merge_step tol) (foldl (merge_step tol) [] (pre @ [a])) (b # post)"
      unfolding merge_sections_def by (simp only: foldl_append)
    then show ?thesis using p by simp
  qed
  ultimately show ?thesis using d(1) by simp
qed

lemma merge_idempotent_iff:
  "merge_sections tol (merge_sections tol secs) = merge_sections tol secs
   \<longleftrightarrow> adjacent_apart tol (merge_sections tol secs)"
proof
  assume e: "merge_sections tol (merge_sections tol secs) = merge_sections tol secs"
  show "adjacent_apart tol (merge_sections tol secs)"
  proof (rule ccontr)
    assume "\<not> adjacent_apart tol (merge_sections tol secs)"
    then have "length (merge_sections tol (merge_sections tol secs)) < length (merge_sections tol secs)"
      by (rule merge_sections_shrinks)
    then show False using e by simp
  qed
next
  assume "adjacent_apart tol (merge_sections tol secs)"
  then show "merge_sections tol (merge_sections tol secs) = merge_sections tol secs"
    by (rule merge_sections_apart)
qed

text \<open>
  The sections the segmentation scan produces cover increasing, non-empty index ranges,
  and the merge pass keeps that. So every divisor \<^verbatim>\<open>last_count + curr_count\<close> of the
  merge pass is at least 2 on such input, and the division in \<open>merge_step\<close> is defined.
\<close>

lemma ordered_sections_snoc:
  "ordered_sections (xs @ [a]) \<longleftrightarrow>
     ordered_sections xs \<and> start_idx a \<le> end_idx a \<and> (xs \<noteq> [] \<longrightarrow> end_idx (last xs) < start_idx a)"
  by (induction xs rule: ordered_sections.induct) auto

lemma segment_scan_ordered:
  "segment_scan beat_times tol rest i cur_start cur_bpms sections = Some (secs, cs, cb) \<Longrightarrow>
   ordered_sections sections \<Longrightarrow> (sections \<noteq> [] \<longrightarrow> end_idx (last sections) < cur_start) \<Longrightarrow>
   cur_start < i \<Longrightarrow>
   ordered_sections secs \<and> (secs \<noteq> [] \<longrightarrow> end_idx (last secs) < cs) \<and> cs < i + length rest"
proof (induction rest arbitrary: i cur_start cur_bpms sections)
  case Nil
  then show ?case by simp
next
  case (Cons b rest)
  show ?case
  proof (cases "\<bar>b - np_median cur_bpms\<bar> \<le> tol")
    case True
    then have "segment_scan beat_times tol rest (Suc i) cur_start (cur_bpms @ [b]) sections = Some (secs, cs, cb)"
      using Cons.prems(1) by simp
    then show ?thesis using Cons.IH[of "Suc i" cur_start "cur_bpms @ [b]" sections] Cons.prems(2,3,4) by simp
  next
    case False
    let ?new = "\<lparr>start_idx = cur_start, end_idx = i - 1, bpm = np_median cur_bpms,
                   time = beat_times ! cur_start\<rparr>"
    have s: "segment_scan beat_times tol rest (Suc i) i [b] (sections @ [?new]) = Some (secs, cs, cb)"
      using Cons.prems(1) False by (simp add: py_index_def split: if_splits)
    have o: "ordered_sections (sections @ [?new])"
      using Cons.prems(2,3,4) by (simp add: ordered_sections_snoc)
    have l: "sections @ [?new] \<noteq> [] \<longrightarrow> end_idx (last (sections @ [?new])) < i"
      using Cons.prems(4) by simp
    show ?thesis using Cons.IH[OF s o l] by simp
  qed
qed

lemma find_sections_ordered:
  assumes "find_sections beat_times bpms tol = Some secs" and "bpms \<noteq> []"
  shows "ordered_sections secs"
proof -
  obtain ss cs cb where
    s: "segment_scan beat_times tol (tl bpms) 1 0 [hd bpms] [] = Some (ss, cs, cb)"
    and e: "secs = ss @ [\<lparr>start_idx = cs, end_idx = length bpms - 1, bpm = np_median cb,
                            time = beat_times ! cs\<rparr>]"
    using assms(1) by (auto simp: find_sections_def py_index_def split: option.splits if_splits)
  have "ordered_sections ss \<and> (ss \<noteq> [] \<longrightarrow> end_idx (last ss) < cs) \<and> cs < 1 + length (tl bpms)"
    using segment_scan_ordered[OF s] by simp
  then show ?thesis using assms(2) unfolding e by (auto simp: ordered_sections_snoc)
qed

lemma merge_divisor_positive:
  assumes "ordered_sections (merged @ [s])" and "merged \<noteq> []"
  shows "2 \<le> (int (end_idx s) - int (start_idx (last merged)) + 1)
            + (int (end_idx s) - int (start_idx s) + 1)"
proof -
  have "merged = butlast merged @ [last merged]" using assms(2) by simp
  then have "ordered_sections (butlast merged @ [last merged])" using assms(1)
    by (metis ordered_sections_snoc)
  then have "start_idx (last merged) \<le> end_idx (last merged)" by (simp add: ordered_sections_snoc)
  moreover have "end_idx (last merged) < start_idx s" "start_idx s \<le> end_idx s"
    using assms by (simp_all add: ordered_sections_snoc)
  ultimately show ?thesis by linarith
qed

lemma merge_step_ordered:
  assumes "ordered_sections (merged @ [s])"
  shows "ordered_sections (merge_step tol merged s)
         \<and> end_idx (last (merge_step tol merged s)) = end_idx s"
proof (cases "merged = []")
  case True
  then show ?thesis using assms by (simp add: merge_step_def)
next
  case False
  then have m: "merged = butlast merged @ [last merged]" by simp
  have a: "ordered_sections merged" "start_idx s \<le> end_idx s" "end_idx (last merged) < start_idx s"
    using assms False by (simp_all add: ordered_sections_snoc)
  have b: "ordered_sections (butlast merged)" "start_idx (last merged) \<le> end_idx (last merged)"
    "butlast merged \<noteq> [] \<longrightarrow> end_idx (last (butlast merged)) < start_idx (last merged)"
    using a(1) m by (metis ordered_sections_snoc)+
  show ?thesis
  proof (cases "\<bar>bpm s - bpm (last merged)\<bar> \<le> tol")
    case True
    then show ?thesis using False a b by (simp add: merge_step_def Let_def ordered_sections_snoc)
  next
    case no: False
    then show ?thesis using False assms by (simp add: merge_step_def Let_def)
  qed
qed

lemma foldl_merge_ordered:
  "ordered_sections acc \<Longrightarrow> ordered_sections secs \<Longrightarrow>
   (acc \<noteq> [] \<longrightarrow> secs \<noteq> [] \<longrightarrow> end_idx (last acc) < start_idx (hd secs)) \<Longrightarrow>
   ordered_sections (foldl (merge_step tol) acc secs)"
proof (induction secs arbitrary: acc)
  case Nil
  then show ?case by simp
next
  case (Cons s secs)
  have sw: "start_idx s \<le> end_idx s" using Cons.prems(2) by (cases secs) simp_all
  have "ordered_sections (acc @ [s])"
    using Cons.prems(1,3) sw by (simp add: ordered_sections_snoc)
  then have m: "ordered_sections (merge_step tol acc s)"
    "end_idx (last (merge_step tol acc s)) = end_idx s"
    using merge_step_ordered[of acc s tol] by simp_all
  have r: "ordered_sections secs" using Cons.prems(2) by (cases secs) simp_all
  have h: "secs \<noteq> [] \<longrightarrow> end_idx s < start_idx (hd secs)"
    using Cons.prems(2) by (cases secs) simp_all
  show ?case using Cons.IH[OF m(1) r] m(2) h by simp
qed

lemma merge_sections_ordered:
  "ordered_sections secs \<Longrightarrow> ordered_sections (merge_sections tol secs)"
  using foldl_merge_ordered[of "[]" secs tol] by (simp add: merge_sections_def)

text \<open>
  Claim C3, as amended. For the sections the segmentation scan produces and every
  tolerance, applying the merge pass a second time changes nothing if and only if the
  first result has no two neighbouring sections whose BPM values differ by at most the
  tolerance; and a list all of whose neighbours differ by more than the tolerance is
  returned unchanged.
\<close>

theorem merge_pass_idempotent_iff_result_apart:
  assumes "find_sections beat_times bpms scan_tolerance = Some secs"
  shows "(merge_sections tolerance (merge_sections tolerance secs) = merge_sections tolerance secs
          \<longleftrightarrow> adjacent_apart tolerance (merge_sections tolerance secs))
       \<and> (adjacent_apart tolerance secs \<longrightarrow> merge_sections tolerance secs = secs)"
  using merge_idempotent_iff[of tolerance secs] merge_sections_apart[of tolerance secs] by simp

theorem merge_pass_idempotent_iff_result_apart_witness:
  "find_sections [0, 1, 2, 3, 4, 5] [120, 120.5, 121, 150, 150.2] 2
     = Some [\<lparr>start_idx = 0, end_idx = 2, bpm = 120.5, time = 0\<rparr>,
             \<lparr>start_idx = 3, end_idx = 4, bpm = 150.1, time = 3\<rparr>]
   \<and> adjacent_apart 2 [\<lparr>start_idx = 0, end_idx = 2, bpm = 120.5, time = 0\<rparr>,
             \<lparr>start_idx = 3, end_idx = 4, bpm = 150.1, time = 3\<rparr>]
   \<and> merge_sections 2 [\<lparr>start_idx = 0, end_idx = 2, bpm = 120.5, time = 0\<rparr>,
             \<lparr>start_idx = 3, end_idx = 4, bpm = 150.1, time = 3\<rparr>]
      = [\<lparr>start_idx = 0, end_idx = 2, bpm = 120.5, time = 0\<rparr>,
             \<lparr>start_idx = 3, end_idx = 4, bpm = 150.1, time = 3\<rparr>]
   \<and> merge_sections 2 (merge_sections 2 [\<lparr>start_idx = 0, end_idx = 2, bpm = 120.5, time = 0\<rparr>,
             \<lparr>start_idx = 3, end_idx = 4, bpm = 150.1, time = 3\<rparr>])
      = merge_sections 2 [\<lparr>start_idx = 0, end_idx = 2, bpm = 120.5, time = 0\<rparr>,
             \<lparr>start_idx = 3, end_idx = 4, bpm = 150.1, time = 3\<rparr>]"
proof -
  have f: "find_sections [0, 1, 2, 3, 4, 5] [120, 120.5, 121, 150, 150.2] 2
     = Some [\<lparr>start_idx = 0, end_idx = 2, bpm = 120.5, time = 0\<rparr>,
             \<lparr>start_idx = 3, end_idx = 4, bpm = 150.1, time = 3\<rparr>]"
    by (simp add: find_sections_def np_median_def py_index_def)
  have a: "adjacent_apart 2 [\<lparr>start_idx = 0, end_idx = 2, bpm = 120.5, time = 0\<rparr>,
             \<lparr>start_idx = 3, end_idx = 4, bpm = 150.1, time = 3\<rparr>]"
    by simp
  show ?thesis
    using merge_pass_idempotent_iff_result_apart[OF f, of 2] f a by simp
qed

text \<open>
  Claim C3 as stated fails. With tolerance 2 the scan of \<open>[100, 102.1, 100.05, 100.2,
  100.2]\<close> gives sections of BPM 100, 102.1 and 100.2. The first pass keeps the first,
  merges the other two into one of BPM \<open>709 / 7\<close>, about 101.29, which is within 2 of
  100; so the second pass merges again and returns a single section.
\<close>

theorem merge_pass_not_idempotent:
  "find_sections [0, 1, 2, 3, 4, 5] [100, 102.1, 100.05, 100.2, 100.2] 2
     = Some [\<lparr>start_idx = 0, end_idx = 0, bpm = 100, time = 0\<rparr>,
             \<lparr>start_idx = 1, end_idx = 1, bpm = 102.1, time = 1\<rparr>,
             \<lparr>start_idx = 2, end_idx = 4, bpm = 100.2, time = 2\<rparr>]
   \<and> merge_sections 2 [\<lparr>start_idx = 0, end_idx = 0, bpm = 100, time = 0\<rparr>,
             \<lparr>start_idx = 1, end_idx = 1, bpm = 102.1, time = 1\<rparr>,
             \<lparr>start_idx = 2, end_idx = 4, bpm = 100.2, time = 2\<rparr>]
      = [\<lparr>start_idx = 0, end_idx = 0, bpm = 100, time = 0\<rparr>,
         \<lparr>start_idx = 1, end_idx = 4, bpm = 709 / 7, time = 1\<rparr>]
   \<and> merge_sections 2 [\<lparr>start_idx = 0, end_idx = 0, bpm = 100, time = 0\<rparr>,
         \<lparr>start_idx = 1, end_idx = 4, bpm = 709 / 7, time = 1\<rparr>]
      = [\<lparr>start_idx = 0, end_idx = 4, bpm = 6336 / 63, time = 0\<rparr>]
   \<and> merge_sections 2 (merge_sections 2 [\<lparr>start_idx = 0, end_idx = 0, bpm = 100, time = 0\<rparr>,
             \<lparr>start_idx = 1, end_idx = 1, bpm = 102.1, time = 1\<rparr>,
             \<lparr>start_idx = 2, end_idx = 4, bpm = 100.2, time = 2\<rparr>])
      \<noteq> merge_sections 2 [\<lparr>start_idx = 0, end_idx = 0, bpm = 100, time = 0\<rparr>,
             \<lparr>start_idx = 1, end_idx = 1, bpm = 102.1, time = 1\<rparr>,
             \<lparr>start_idx = 2, end_idx = 4, bpm = 100.2, time = 2\<rparr>]"
  by (simp add: find_sections_def np_median_def py_index_def merge_sections_def merge_step_def)

subsection \<open>Sub-frame Time Interpolator: ordering of the timestamps\<close>

lemma parabolic_offset_bounded:
  assumes "alpha + 1 / 100000000 \<le> beta" and "gamma + 1 / 100000000 \<le> beta"
  shows "\<exists>p. parabolic_offset alpha beta gamma = Some p \<and> \<bar>p\<bar> \<le> 1 / 2"
proof -
  define d where "d = alpha - 2 * beta + gamma + 1 / 100000000"
  have dneg: "d < 0" using assms by (simp add: d_def)
  have num: "\<bar>alpha - gamma\<bar> \<le> - d" using assms by (simp add: d_def abs_le_iff)
  have dabs: "0 < \<bar>d\<bar>" "\<bar>alpha - gamma\<bar> \<le> \<bar>d\<bar>" using dneg num by simp_all
  have "\<bar>alpha - gamma\<bar> / \<bar>d\<bar> \<le> 1" using dabs by simp
  then have "\<bar>(alpha - gamma) / d\<bar> \<le> 1" by (simp only: abs_divide)
  then have "\<bar>0.5 * (alpha - gamma) / d\<bar> \<le> 1 / 2" by (simp add: abs_mult)
  then show ?thesis using dneg by (simp add: parabolic_offset_def d_def[symmetric] Let_def)
qed

lemma refined_frame_between:
  assumes "strict_peak onset_env (py_int frame) \<longrightarrow> clear_peak onset_env (py_int frame)"
  shows "\<exists>r. refined_frame onset_env frame = Some r
           \<and> frame_low onset_env frame \<le> r \<and> r \<le> frame_high onset_env frame"
proof (cases "strict_peak onset_env (py_int frame)")
  case True
  let ?k = "py_int frame"
  have c: "clear_peak onset_env ?k" using True assms by simp
  obtain p where p: "parabolic_offset (onset_env ! nat (?k - 1)) (onset_env ! nat ?k)
        (onset_env ! nat (?k + 1)) = Some p" "\<bar>p\<bar> \<le> 1 / 2"
    using parabolic_offset_bounded c unfolding clear_peak_def by blast
  have "refined_frame onset_env frame = Some (real_of_int ?k + p)"
    using True p(1) by (simp add: refined_frame_def strict_peak_def Let_def)
  moreover have "real_of_int ?k - 1 / 2 \<le> real_of_int ?k + p" "real_of_int ?k + p \<le> real_of_int ?k + 1 / 2"
    using p(2) by (simp_all add: abs_le_iff)
  ultimately show ?thesis using True by (simp add: frame_low_def frame_high_def)
next
  case False
  then have "refined_frame onset_env frame = Some frame"
    by (auto simp: refined_frame_def strict_peak_def Let_def)
  then show ?thesis using False by (simp add: frame_low_def frame_high_def)
qed

lemma refined_frame_same_peak:
  assumes "strict_peak onset_env (py_int f)" and "py_int f = py_int g"
  shows "refined_frame onset_env f = refined_frame onset_env g"
  using assms by (simp add: refined_frame_def strict_peak_def Let_def)

lemma refined_frame_adjacent:
  assumes "strict_peak onset_env (py_int f) \<longrightarrow> clear_peak onset_env (py_int f)"
    and "strict_peak onset_env (py_int g) \<longrightarrow> clear_peak onset_env (py_int g)"
    and "frame_high onset_env f \<le> frame_low onset_env g
         \<or> (strict_peak onset_env (py_int f) \<and> py_int f = py_int g)"
  shows "\<exists>r s. refined_frame onset_env f = Some r \<and> refined_frame onset_env g = Some s \<and> r \<le> s"
proof -
  obtain r where r: "refined_frame onset_env f = Some r"
    "frame_low onset_env f \<le> r" "r \<le> frame_high onset_env f"
    using refined_frame_between[OF assms(1)] by blast
  obtain s where s: "refined_frame onset_env g = Some s"
    "frame_low onset_env g \<le> s" "s \<le> frame_high onset_env g"
    using refined_frame_between[OF assms(2)] by blast
  show ?thesis
  proof (cases "frame_high onset_env f \<le> frame_low onset_env g")
    case True
    then have "r \<le> s" using r(3) s(2) by linarith
    then show ?thesis using r(1) s(1) by simp
  next
    case False
    then have "strict_peak onset_env (py_int f)" "py_int f = py_int g" using assms(3) by blast+
    then have "refined_frame onset_env f = refined_frame onset_env g"
      by (rule refined_frame_same_peak)
    then have "refined_frame onset_env g = Some r" using r(1) by simp
    then have "refined_frame onset_env f = Some r \<and> refined_frame onset_env g = Some r \<and> r \<le> r"
      using r(1) by simp
    then show ?thesis by blast
  qed
qed

lemma frames_to_time_sorted:
  assumes "0 < sr"
  shows "half_frame_separated onset_env frames \<Longrightarrow>
    \<forall>f \<in> set frames. strict_peak onset_env (py_int f) \<longrightarrow> clear_peak onset_env (py_int f) \<Longrightarrow>
    \<exists>ts. frames_to_time_precise frames onset_env hop_length sr = Some ts
       \<and> length ts = length frames \<and> sorted ts
       \<and> (frames \<noteq> [] \<longrightarrow>
            (\<exists>r. refined_frame onset_env (hd frames) = Some r
                 \<and> hd ts = r * real hop_length / real sr))"
proof (induction onset_env frames rule: half_frame_separated.induct)
  case (1 onset_env)
  then show ?case by simp
next
  case (2 onset_env f)
  obtain r where "refined_frame onset_env f = Some r"
    using refined_frame_between[of onset_env f] 2(2) by auto
  then show ?case using assms by (simp add: frame_time_def)
next
  case (3 onset_env f g rest)
  have sep: "half_frame_separated onset_env (g # rest)" using 3(2) by simp
  have pk: "\<forall>f \<in> set (g # rest). strict_peak onset_env (py_int f) \<longrightarrow> clear_peak onset_env (py_int f)"
    using 3(3) by simp
  obtain ts s where ts: "frames_to_time_precise (g # rest) onset_env hop_length sr = Some ts"
    "length ts = length (g # rest)" "sorted ts"
    "refined_frame onset_env g = Some s" "hd ts = s * real hop_length / real sr"
    using 3(1)[OF sep pk] by auto
  have "\<exists>r s. refined_frame onset_env f = Some r \<and> refined_frame onset_env g = Some s \<and> r \<le> s"
    using 3(2,3) by (intro refined_frame_adjacent) simp_all
  then obtain r where r: "refined_frame onset_env f = Some r" "r \<le> s" using ts(4) by auto
  have ne: "ts \<noteq> []" using ts(2) by auto
  have "r * real hop_length / real sr \<le> s * real hop_length / real sr"
    using r(2) by (simp add: divide_right_mono mult_right_mono)
  then have le: "r * real hop_length / real sr \<le> hd ts" using ts(5) by simp
  have "\<forall>t \<in> set ts. hd ts \<le> t" using ts(3) ne by (cases ts) auto
  then have "\<forall>t \<in> set ts. r * real hop_length / real sr \<le> t" using le by fastforce
  then have "sorted (r * real hop_length / real sr # ts)" using ts(3) by simp
  then show ?case using r(1) ts(1,2) assms by (simp add: frame_time_def)
qed

lemma integer_frames_separated:
  "sorted_wrt (<) frames \<Longrightarrow> \<forall>f \<in> set frames. f \<in> \<int> \<Longrightarrow> half_frame_separated onset_env frames"
proof (induction onset_env frames rule: half_frame_separated.induct)
  case (1 onset_env)
  then show ?case by simp
next
  case (2 onset_env f)
  then show ?case by simp
next
  case (3 onset_env f g rest)
  obtain a b where ab: "f = real_of_int a" "g = real_of_int b"
    using 3(3) by (auto elim!: Ints_cases)
  have "f < g" using 3(2) by simp
  then have "a + 1 \<le> b" using ab by simp
  then have "real_of_int a + 1 \<le> real_of_int b" by linarith
  moreover have "py_int f = a" "py_int g = b" using ab by (simp_all add: py_int_def)
  ultimately have "frame_high onset_env f \<le> frame_low onset_env g"
    using ab by (simp add: frame_high_def frame_low_def)
  moreover have "half_frame_separated onset_env (g # rest)" using 3 by simp
  ultimately show ?case by simp
qed

text \<open>
  Claim C4, as amended. For every increasing frame sequence, every envelope with values
  between 0 and 1 in which each visited strict local peak exceeds both neighbours by at
  least \<open>1e-8\<close>, and a positive sample rate: if of every two consecutive frames the first
  cannot land beyond the second (an interpolated frame lands within half a frame of its
  integer part, any other frame keeps its position), or both are interpolated at the same
  integer part, then the interpolator returns one timestamp per frame and the timestamps
  are non-decreasing. Increasing integer-valued frames always meet that condition. And
  for envelope values between 0 and 1 of which the middle one exceeds both neighbours by
  at least \<open>1e-8\<close>, the parabolic offset is defined and within half a frame. Under
  these margins the divisor is at most \<open>-1e-8\<close>, away from the cancellation near zero
  where the rounding of doubles would matter.
\<close>

theorem interpolated_times_sorted_for_clear_peaks:
  "(sorted_wrt (<) frames \<and> half_frame_separated onset_env frames
      \<and> (\<forall>v \<in> set onset_env. 0 \<le> v \<and> v \<le> 1)
      \<and> (\<forall>f \<in> set frames. strict_peak onset_env (py_int f) \<longrightarrow> clear_peak onset_env (py_int f))
      \<and> 0 < sr
     \<longrightarrow> (\<exists>ts. frames_to_time_precise frames onset_env hop_length sr = Some ts
              \<and> length ts = length frames \<and> sorted ts))
   \<and> (sorted_wrt (<) frames \<and> (\<forall>f \<in> set frames. f \<in> \<int>)
     \<longrightarrow> half_frame_separated onset_env frames)
   \<and> (0 \<le> alpha \<and> 0 \<le> gamma \<and> beta \<le> 1
      \<and> alpha + 1 / 100000000 \<le> beta \<and> gamma + 1 / 100000000 \<le> beta
     \<longrightarrow> (\<exists>p. parabolic_offset alpha beta gamma = Some p \<and> \<bar>p\<bar> \<le> 1 / 2))"
proof (intro conjI impI)
  assume a: "sorted_wrt (<) frames \<and> half_frame_separated onset_env frames
      \<and> (\<forall>v \<in> set onset_env. 0 \<le> v \<and> v \<le> 1)
      \<and> (\<forall>f \<in> set frames. strict_peak onset_env (py_int f) \<longrightarrow> clear_peak onset_env (py_int f))
      \<and> 0 < sr"
  then have "0 < sr" "half_frame_separated onset_env frames"
    "\<forall>f \<in> set frames. strict_peak onset_env (py_int f) \<longrightarrow> clear_peak onset_env (py_int f)"
    by simp_all
  from frames_to_time_sorted[OF this]
  show "\<exists>ts. frames_to_time_precise frames onset_env hop_length sr = Some ts
              \<and> length ts = length frames \<and> sorted ts" by blast
next
  assume "sorted_wrt (<) frames \<and> (\<forall>f \<in> set frames. f \<in> \<int>)"
  then show "half_frame_separated onset_env frames" using integer_frames_separated by blast
next
  assume "0 \<le> alpha \<and> 0 \<le> gamma \<and> beta \<le> 1
      \<and> alpha + 1 / 100000000 \<le> beta \<and> gamma + 1 / 100000000 \<le> beta"
  then show "\<exists>p. parabolic_offset alpha beta gamma = Some p \<and> \<bar>p\<bar> \<le> 1 / 2"
    using parabolic_offset_bounded by simp
qed

theorem interpolated_times_sorted_for_clear_peaks_witness:
  "sorted_wrt (<) [1, 2, 15 / 4 :: real]
   \<and> half_frame_separated [0, 1 / 2, 1, 1 / 4, 0] [1, 2, 15 / 4]
   \<and> strict_peak [0, 1 / 2, 1, 1 / 4, 0] (py_int 2) \<and> clear_peak [0, 1 / 2, 1, 1 / 4, 0] (py_int 2)
   \<and> (\<exists>ts. frames_to_time_precise [1, 2, 15 / 4] [0, 1 / 2, 1, 1 / 4, 0] 128 44100 = Some ts
          \<and> length ts = length [1, 2, 15 / 4 :: real] \<and> sorted ts)
   \<and> (\<exists>p. parabolic_offset (1 / 2) 1 (1 / 4) = Some p \<and> \<bar>p\<bar> \<le> 1 / 2)"
proof -
  let ?env = "[0, 1 / 2, 1, 1 / 4, 0] :: real list"
  have p: "py_int 1 = 1" "py_int 2 = 2" "py_int (15 / 4) = 3" by (simp_all add: py_int_def)
  have a: "sorted_wrt (<) [1, 2, 15 / 4 :: real]" by simp
  have pk: "\<not> strict_peak ?env 1" "strict_peak ?env 2" "\<not> strict_peak ?env 3"
    by (simp_all add: strict_peak_def)
  have b: "strict_peak ?env (py_int 2)" "clear_peak ?env (py_int 2)"
    by (simp_all add: p strict_peak_def clear_peak_def)
  have s: "half_frame_separated ?env [1, 2, 15 / 4]"
    by (simp add: frame_high_def frame_low_def p pk)
  have u: "\<forall>v \<in> set ?env. 0 \<le> v \<and> v \<le> 1" by simp
  have c: "\<forall>f \<in> set [1, 2, 15 / 4 :: real].
      strict_peak ?env (py_int f) \<longrightarrow> clear_peak ?env (py_int f)"
    using b(2) pk by (simp add: p)
  note t = interpolated_times_sorted_for_clear_peaks[of "[1, 2, 15 / 4]" ?env 44100 128 "1 / 2" "1 / 4" 1]
  have h: "sorted_wrt (<) [1, 2, 15 / 4 :: real] \<and> half_frame_separated ?env [1, 2, 15 / 4]
      \<and> (\<forall>v \<in> set ?env. 0 \<le> v \<and> v \<le> 1)
      \<and> (\<forall>f \<in> set [1, 2, 15 / 4 :: real].
            strict_peak ?env (py_int f) \<longrightarrow> clear_peak ?env (py_int f))
      \<and> 0 < (44100 :: nat)"
    using a s u c by simp
  have r1: "\<exists>ts. frames_to_time_precise [1, 2, 15 / 4] ?env 128 44100 = Some ts
          \<and> length ts = length [1, 2, 15 / 4 :: real] \<and> sorted ts"
    using t[THEN conjunct1] h by (rule mp)
  have e: "(0 :: real) \<le> 1 / 2 \<and> (0 :: real) \<le> 1 / 4 \<and> (1 :: real) \<le> 1
      \<and> (1 / 2 :: real) + 1 / 100000000 \<le> 1 \<and> (1 / 4 :: real) + 1 / 100000000 \<le> 1" by simp
  have r2: "\<exists>p. parabolic_offset (1 / 2) 1 (1 / 4) = Some p \<and> \<bar>p\<bar> \<le> 1 / 2"
    using t[THEN conjunct2, THEN conjunct2] e by (rule mp)
  show ?thesis by (intro conjI a s b r1 r2)
qed

text \<open>
  Claim C4 as stated fails in both parts. The frames \<open>1.75 < 2.5\<close>, as the offbeat
  insertion produces, on the envelope \<open>[0, 0.9, 1, 0.1]\<close>: the first is kept, the second
  is truncated to the peak at 2 and moved by an offset of about \<open>-0.4\<close> to about 1.6, so
  the times decrease. And the strict peak \<open>9e-9\<close> between 0 and \<open>8.5e-9\<close> has offset
  \<open>-8.5\<close>, because the constant \<open>1e-8\<close> added to the divisor outweighs the curvature;
  the frames \<open>0 < 1\<close> then get the times 0 and \<open>-16/735\<close>.
\<close>

theorem interpolated_times_can_decrease:
  "sorted_wrt (<) [7 / 4, 5 / 2 :: real]
   \<and> parabolic_offset (9 / 10) 1 (1 / 10) = Some (- (40000000 / 99999999))
   \<and> frames_to_time_precise [7 / 4, 5 / 2] [0, 9 / 10, 1, 1 / 10] 128 44100
        = Some [8 / 1575, 5119999936 / 1102499988975]
   \<and> \<not> sorted [8 / 1575, 5119999936 / 1102499988975 :: real]
   \<and> (0 :: real) < 9 / 1000000000 \<and> (85 :: real) / 10000000000 < 9 / 1000000000
   \<and> parabolic_offset 0 (9 / 1000000000) (85 / 10000000000) = Some (- (17 / 2))
   \<and> \<not> \<bar>- (17 / 2) :: real\<bar> \<le> 1 / 2
   \<and> sorted_wrt (<) [0, 1 :: real]
   \<and> frames_to_time_precise [0, 1] [0, 9 / 1000000000, 85 / 10000000000] 128 44100
        = Some [0, - (16 / 735)]
   \<and> \<not> sorted [0, - (16 / 735) :: real]"
proof -
  have p: "py_int (7 / 4) = 1" "py_int (5 / 2) = 2" "py_int 0 = 0" "py_int 1 = 1"
    by (simp_all add: py_int_def)
  have a: "parabolic_offset (9 / 10) 1 (1 / 10) = Some (- (40000000 / 99999999))"
    by (simp add: parabolic_offset_def)
  have b: "parabolic_offset 0 (9 / 1000000000) (85 / 10000000000) = Some (- (17 / 2))"
    by (simp add: parabolic_offset_def)
  have c: "frames_to_time_precise [7 / 4, 5 / 2] [0, 9 / 10, 1, 1 / 10] 128 44100
        = Some [8 / 1575, 5119999936 / 1102499988975]"
    by (simp add: refined_frame_def p parabolic_offset_def frame_time_def)
  have d: "frames_to_time_precise [0, 1] [0, 9 / 1000000000, 85 / 10000000000] 128 44100
        = Some [0, - (16 / 735)]"
    by (simp add: refined_frame_def p parabolic_offset_def frame_time_def)
  have "\<not> (8 / 1575 :: real) \<le> 5119999936 / 1102499988975"
    by (simp add: divide_le_eq le_divide_eq)
  then have e1: "\<not> sorted [8 / 1575, 5119999936 / 1102499988975 :: real]"
    by (simp only: sorted2 sorted1 simp_thms)
  have e2: "\<not> sorted [0, - (16 / 735) :: real]" by simp
  have f: "sorted_wrt (<) [7 / 4, 5 / 2 :: real]" "sorted_wrt (<) [0, 1 :: real]" by simp_all
  have g: "(0 :: real) < 9 / 1000000000" "(85 :: real) / 10000000000 < 9 / 1000000000"
    "\<not> \<bar>- (17 / 2) :: real\<bar> \<le> 1 / 2" by simp_all
  show ?thesis by (intro conjI a b c d e1 e2 f g)
qed

subsection \<open>Beat-to-Onset Refiner: snapping\<close>









lemma window_nonempty_iff:
  "(\<exists>k < length onset_env. in_window frame window k)
   \<longleftrightarrow> max 0 (frame - window) < min (int (length onset_env)) (frame + window + 1)"
proof
  assume "\<exists>k < length onset_env. in_window frame window k"
  then obtain k where "k < length onset_env" "\<bar>int k - frame\<bar> \<le> window"
    by (auto simp: in_window_def)
  then show "max 0 (frame - window) < min (int (length onset_env)) (frame + window + 1)"
    by linarith
next
  assume a: "max 0 (frame - window) < min (int (length onset_env)) (frame + window + 1)"
  define k where "k = nat (max 0 (frame - window))"
  have "int k = max 0 (frame - window)" by (simp add: k_def)
  then have "k < length onset_env" "\<bar>int k - frame\<bar> \<le> window" using a by linarith+
  then show "\<exists>k < length onset_env. in_window frame window k"
    by (auto simp: in_window_def)
qed








text \<open>
  The wrap-around of the int64 subtraction is part of the model: for the beat \<open>-2^62\<close>
  and the onset \<open>2^62\<close> the distance wraps to \<open>-2^63\<close>, which is below every window,
  and the beat is snapped.
\<close>

lemma refiner_distance_wraps:
  "refine_beats_to_onsets_advanced [] [- 4611686018427387904] [4611686018427387904]
     = [4611686018427387904]"
  by (simp add: refine_beats_to_onsets_advanced_def search_window_def py_int_def refine_beat_def
      np_abs64_def wrap64_def)

end
